theory Spec2Isabelle
  imports Main
begin

section \<open>Python values and exceptions\<close>

text \<open>
  The values the container stores and the scope participants yield.  \<open>PFun f\<close> is a
  callable object, identified by \<open>f\<close>; every other value is not callable.
\<close>

datatype pyval = PNone | PBool bool | PInt int | PStr string | PFun nat

text \<open>Python's truth test, as \<^verbatim>\<open>if stop.value:\<close> applies it.\<close>

fun truthy :: "pyval \<Rightarrow> bool" where
  "truthy PNone = False"
| "truthy (PBool b) = b"
| "truthy (PInt i) = (i \<noteq> 0)"
| "truthy (PStr s) = (s \<noteq> [])"
| "truthy (PFun f) = True"

section \<open>The dependency container (context.py, \<open>Context.require\<close> and \<open>Context.provide\<close>)\<close>

text \<open>
  What \<open>require\<close> can raise: the \<open>DependencyError\<close> of the source (it carries the key
  the message quotes), the \<open>TypeError\<close> of calling a lazy registration that is not
  callable, and whatever a constructor itself raises (\<open>ProviderError n\<close>).
\<close>

datatype container_error = DependencyError string | NotCallable | ProviderError nat

text \<open>
  The callables of the environment: \<open>env f k\<close> is what the call number \<open>k\<close> (from 0) of
  the callable \<open>f\<close> does, return a value or raise.
\<close>

type_synonym callables = "nat \<Rightarrow> nat \<Rightarrow> container_error + pyval"

text \<open>
  The three dictionaries of a \<open>Context\<close>, and the log of the constructor calls made so
  far (newest first), which the source does not keep and the claims count.
\<close>

record Context =
  config :: "string \<rightharpoonup> pyval"
  container :: "string \<rightharpoonup> pyval"
  providers :: "string \<rightharpoonup> pyval"
  invoked :: "nat list"

definition is_config_key :: "string \<Rightarrow> bool" where
  "is_config_key key = (take 7 key = ''config.'')"

definition invocations :: "nat \<Rightarrow> Context \<Rightarrow> nat" where
  "invocations f c = count_list (invoked c) f"

text \<open>\<^verbatim>\<open>self._providers[key]()\<close>: calling the registered object.\<close>

fun call_provider :: "callables \<Rightarrow> Context \<Rightarrow> pyval \<Rightarrow> (container_error + pyval) \<times> Context" where
  "call_provider env c (PFun f) = (env f (invocations f c), c\<lparr>invoked := f # invoked c\<rparr>)"
| "call_provider env c v = (Inl NotCallable, c)"

definition require :: "callables \<Rightarrow> Context \<Rightarrow> string \<Rightarrow> (container_error + pyval) \<times> Context" where
  "require env c key =
     (if is_config_key key then
        (case config c (drop 7 key) of
           None \<Rightarrow> (Inl (DependencyError key), c)
         | Some v \<Rightarrow> (Inr v, c))
      else
        (case container c key of
           Some v \<Rightarrow> (Inr v, c)
         | None \<Rightarrow>
            (case providers c key of
               None \<Rightarrow> (Inl (DependencyError key), c)
             | Some p \<Rightarrow>
                (case call_provider env c p of
                   (Inl e, c') \<Rightarrow> (Inl e, c')
                 | (Inr v, c') \<Rightarrow> (Inr v, c'\<lparr>container := (container c')(key \<mapsto> v)\<rparr>)))))"

definition provide :: "Context \<Rightarrow> string \<Rightarrow> pyval \<Rightarrow> bool \<Rightarrow> Context" where
  "provide c key v lazy =
     (if lazy then c\<lparr>providers := (providers c)(key \<mapsto> v)\<rparr>
      else c\<lparr>container := (container c)(key \<mapsto> v)\<rparr>)"

text \<open>A sequence of \<open>provide\<close> calls for one key, each a value and its \<open>lazy\<close> flag.\<close>

fun provide_all :: "Context \<Rightarrow> string \<Rightarrow> (pyval \<times> bool) list \<Rightarrow> Context" where
  "provide_all c key [] = c"
| "provide_all c key ((v, lazy) # ops) = provide_all (provide c key v lazy) key ops"

text \<open>The value of the last \<open>provide\<close> of a sequence that was not lazy, if there is one.\<close>

fun last_eager :: "(pyval \<times> bool) list \<Rightarrow> pyval option" where
  "last_eager [] = None"
| "last_eager ((v, lazy) # ops) =
     (case last_eager ops of Some w \<Rightarrow> Some w | None \<Rightarrow> if lazy then None else Some v)"

text \<open>\<open>n\<close> calls of \<open>require\<close> for one key: the results, oldest first, and the Context left.\<close>

fun require_n :: "callables \<Rightarrow> Context \<Rightarrow> string \<Rightarrow> nat \<Rightarrow> (container_error + pyval) list \<times> Context" where
  "require_n env c key 0 = ([], c)"
| "require_n env c key (Suc n) =
     (case require env c key of
        (r, c') \<Rightarrow> (case require_n env c' key n of (rs, c'') \<Rightarrow> (r # rs, c'')))"

text \<open>A Context as \<open>Context.__init__\<close> leaves it.\<close>

definition new_context :: "(string \<rightharpoonup> pyval) \<Rightarrow> Context" where
  "new_context cfg = \<lparr>config = cfg, container = Map.empty, providers = Map.empty, invoked = []\<rparr>"

text \<open>Two environments for concrete runs: every call returns \<open>v\<close>; every call raises.\<close>

definition returning :: "pyval \<Rightarrow> callables" where
  "returning v f k = Inr v"

definition raising :: callables where
  "raising f k = Inl (ProviderError f)"

section \<open>The scope composer (context.py, \<open>Context.__aenter__\<close> and \<open>Context.__aexit__\<close>)\<close>

text \<open>
  Exception objects.  \<open>Raised n\<close> is an object raised by a participant or by the handler.
  The others are created while the Context runs, and carry the number of the creation as
  their identity: the \<open>RuntimeError\<close> of a protocol violation (its message's kind and the
  participant it names), the \<open>AttributeError\<close> of evaluating \<^verbatim>\<open>stop.value\<close> on an
  exception without that attribute, and the \<open>TypeError\<close> of \<^verbatim>\<open>raise None\<close>.
  Python's \<^verbatim>\<open>is\<close> on exceptions is equality here.
\<close>

datatype violation = NotYield | YieldNonNone | ReturnNonNone | NotStop

datatype exc =
    Raised nat
  | RuntimeError violation nat nat
  | AttributeError nat
  | TypeError nat

text \<open>
  What awaiting \<^verbatim>\<open>ctx.asend(None)\<close> or \<^verbatim>\<open>ctx.athrow(e)\<close> does: the participant yields a
  value, it raises \<open>StopAsyncIteration\<close>, or it raises another exception.  The builtin
  \<open>StopAsyncIteration\<close> has no attribute \<open>value\<close> (only \<open>StopIteration\<close> has one), and it is
  what an async generator raises when it finishes: that is \<open>Stop None\<close>.
  \<open>Stop (Some v)\<close> is an exception of a subclass that does carry \<open>value = v\<close>.
\<close>

datatype outcome = Yield pyval | Stop "pyval option" | Raise exc

text \<open>
  A scope participant: its identity, what its first \<open>asend(None)\<close> does (in
  \<open>__aenter__\<close>), what its second \<open>asend(None)\<close> does (in \<open>__aexit__\<close>), and what
  \<open>athrow(e)\<close> does.
\<close>

record participant =
  pid :: nat
  first_asend :: outcome
  asend :: outcome
  athrow :: "exc \<Rightarrow> outcome"

datatype event = Asend nat | Athrow nat exc

fun event_pid :: "event \<Rightarrow> nat" where
  "event_pid (Asend i) = i"
| "event_pid (Athrow i e) = i"

text \<open>
  The state the composer works on: the \<open>__cause__\<close> attribute of every exception
  object, the number of exception objects created so far, and the calls made to the
  participants, oldest first.
\<close>

record pystate =
  cause :: "exc \<rightharpoonup> exc"
  created :: nat
  calls :: "event list"

definition record_call :: "event \<Rightarrow> pystate \<Rightarrow> pystate" where
  "record_call ev h = h\<lparr>calls := calls h @ [ev]\<rparr>"

definition create :: "(nat \<Rightarrow> exc) \<Rightarrow> pystate \<Rightarrow> exc \<times> pystate" where
  "create mk h = (mk (created h), h\<lparr>created := Suc (created h)\<rparr>)"

text \<open>Lines 36 to 48: the first loop of \<open>__aenter__\<close>, which stops at the first error.\<close>

fun enter_loop :: "participant list \<Rightarrow> nat \<Rightarrow> pystate \<Rightarrow> (nat \<times> exc) option \<times> pystate" where
  "enter_loop [] i h = (None, h)"
| "enter_loop (p # ps) i h =
     (case first_asend p of
        Stop sv \<Rightarrow>
          (case create (RuntimeError NotYield (pid p)) (record_call (Asend (pid p)) h) of
             (e, h') \<Rightarrow> (Some (i, e), h'))
      | Raise e \<Rightarrow> (Some (i, e), record_call (Asend (pid p)) h)
      | Yield v \<Rightarrow>
          if v \<noteq> PNone then
            (case create (RuntimeError YieldNonNone (pid p)) (record_call (Asend (pid p)) h) of
               (e, h') \<Rightarrow> (Some (i, e), h'))
          else enter_loop ps (Suc i) (record_call (Asend (pid p)) h))"

text \<open>Lines 62 to 64: a different error object takes the current one as its cause.\<close>

definition relink :: "exc \<Rightarrow> exc \<Rightarrow> pystate \<Rightarrow> exc \<times> pystate" where
  "relink error current_error h =
     (if error \<noteq> current_error then (error, h\<lparr>cause := (cause h)(error \<mapsto> current_error)\<rparr>)
      else (current_error, h))"

text \<open>
  Lines 51 to 64: the unwind over the participants entered before the failure, given in
  the order they are visited.  \<open>Inl\<close>: an exception left the loop from inside an
  \<open>except\<close> clause; \<open>Inr\<close>: the loop ended with this current error.
\<close>

fun unwind_loop :: "participant list \<Rightarrow> exc \<Rightarrow> pystate \<Rightarrow> (exc + exc) \<times> pystate" where
  "unwind_loop [] current_error h = (Inr current_error, h)"
| "unwind_loop (p # ps) current_error h =
     (case athrow p current_error of
        Stop None \<Rightarrow>
          (case create AttributeError (record_call (Athrow (pid p) current_error) h) of
             (a, h') \<Rightarrow> (Inl a, h'))
      | Stop (Some v) \<Rightarrow>
          if truthy v then
            (case create (RuntimeError ReturnNonNone (pid p))
                    (record_call (Athrow (pid p) current_error) h) of
               (e, h') \<Rightarrow> (case relink e current_error h' of (c, h'') \<Rightarrow> unwind_loop ps c h''))
          else unwind_loop ps current_error (record_call (Athrow (pid p) current_error) h)
      | Raise e \<Rightarrow>
          (case relink e current_error (record_call (Athrow (pid p) current_error) h) of
             (c, h') \<Rightarrow> unwind_loop ps c h')
      | Yield v \<Rightarrow>
          (case create (RuntimeError NotStop (pid p))
                  (record_call (Athrow (pid p) current_error) h) of
             (e, h') \<Rightarrow> (case relink e current_error h' of (c, h'') \<Rightarrow> unwind_loop ps c h'')))"

text \<open>\<open>__aenter__\<close>: \<open>Inr ()\<close> is \<^verbatim>\<open>return self\<close>, \<open>Inl e\<close> is an exception leaving it.\<close>

definition aenter :: "participant list \<Rightarrow> pystate \<Rightarrow> (exc + unit) \<times> pystate" where
  "aenter ps h =
     (case enter_loop ps 0 h of
        (None, h') \<Rightarrow> (Inr (), h')
      | (Some (i, error), h') \<Rightarrow>
          (case unwind_loop (rev (take i ps)) error h' of
             (Inl a, h'') \<Rightarrow> (Inl a, h'')
           | (Inr current_error, h'') \<Rightarrow> (Inl current_error, h'')))"

text \<open>Lines 86 to 93: how the error of one step updates the current error of \<open>__aexit__\<close>.\<close>

definition supersede :: "exc option \<Rightarrow> exc option \<Rightarrow> pystate \<Rightarrow> exc option \<times> pystate" where
  "supersede error current_error h =
     (case error of
        None \<Rightarrow> (None, h)
      | Some e \<Rightarrow>
          (case current_error of
             None \<Rightarrow> (Some e, h)
           | Some c \<Rightarrow>
               if e \<noteq> c then (Some e, h\<lparr>cause := (cause h)(e \<mapsto> c)\<rparr>) else (Some c, h)))"

text \<open>Lines 72 to 75: the call one step of \<open>__aexit__\<close> makes, and what it does.\<close>

definition exit_event :: "participant \<Rightarrow> exc option \<Rightarrow> event" where
  "exit_event p current_error =
     (case current_error of None \<Rightarrow> Asend (pid p) | Some c \<Rightarrow> Athrow (pid p) c)"

definition exit_call :: "participant \<Rightarrow> exc option \<Rightarrow> outcome" where
  "exit_call p current_error =
     (case current_error of None \<Rightarrow> asend p | Some c \<Rightarrow> athrow p c)"

text \<open>
  Lines 70 to 93: the loop of \<open>__aexit__\<close>, over the participants in the order they are
  visited.  \<open>Inl\<close>: an exception left the loop from inside an \<open>except\<close> clause;
  \<open>Inr\<close>: the loop ended with this current error.
\<close>

fun exit_loop :: "participant list \<Rightarrow> exc option \<Rightarrow> pystate \<Rightarrow> (exc + exc option) \<times> pystate" where
  "exit_loop [] current_error h = (Inr current_error, h)"
| "exit_loop (p # ps) current_error h =
     (case exit_call p current_error of
        Stop None \<Rightarrow>
          (case create AttributeError (record_call (exit_event p current_error) h) of
             (a, h') \<Rightarrow> (Inl a, h'))
      | Stop (Some v) \<Rightarrow>
          if truthy v then
            (case create (RuntimeError ReturnNonNone (pid p))
                    (record_call (exit_event p current_error) h) of
               (e, h') \<Rightarrow>
                 (case supersede (Some e) current_error h' of (c, h'') \<Rightarrow> exit_loop ps c h''))
          else
            (case supersede None current_error (record_call (exit_event p current_error) h) of
               (c, h') \<Rightarrow> exit_loop ps c h')
      | Raise e \<Rightarrow>
          (case supersede (Some e) current_error (record_call (exit_event p current_error) h) of
             (c, h') \<Rightarrow> exit_loop ps c h')
      | Yield v \<Rightarrow>
          (case create (RuntimeError NotStop (pid p))
                  (record_call (exit_event p current_error) h) of
             (e, h') \<Rightarrow>
               (case supersede (Some e) current_error h' of (c, h'') \<Rightarrow> exit_loop ps c h'')))"

text \<open>
  \<open>__aexit__\<close>, called with the handling step's error \<open>exc\<close>.  \<open>Inr ()\<close> is its return
  (of \<open>None\<close>, so that an \<open>exc\<close> passed in goes on propagating); \<open>Inl e\<close> is an exception
  leaving it.  Line 95 with \<open>current_error\<close> \<open>None\<close> is \<^verbatim>\<open>raise None\<close>, a \<open>TypeError\<close>.
\<close>

definition aexit :: "participant list \<Rightarrow> exc option \<Rightarrow> pystate \<Rightarrow> (exc + unit) \<times> pystate" where
  "aexit ps exc h =
     (case exit_loop (rev ps) exc h of
        (Inl a, h') \<Rightarrow> (Inl a, h')
      | (Inr current_error, h') \<Rightarrow>
          if current_error \<noteq> exc then
            (case current_error of
               Some e \<Rightarrow> (Inl e, h')
             | None \<Rightarrow> (case create TypeError h' of (t, h'') \<Rightarrow> (Inl t, h''))) 
          else (Inr (), h'))"

definition start_state :: pystate where
  "start_state = \<lparr>cause = Map.empty, created = 0, calls = []\<rparr>"

text \<open>
  Participants for concrete runs.  \<open>scope i\<close> is the async generator
  \<^verbatim>\<open>try: yield  finally: pass\<close>: it yields once, finishes when resumed and lets an
  injected error through.  \<open>catching i\<close> is \<^verbatim>\<open>try: yield  except BaseException: pass\<close>: it
  finishes when an error is injected.  \<open>failing i n\<close> raises at its first step.
  \<open>replacing i n\<close> answers an injected error with an error of its own.
  \<open>yielding_twice i\<close> yields again when resumed.  \<open>returning_value i v\<close> is a
  participant that is no async generator and ends with an exception carrying \<open>value = v\<close>.
\<close>

definition scope :: "nat \<Rightarrow> participant" where
  "scope i = \<lparr>pid = i, first_asend = Yield PNone, asend = Stop None, athrow = Raise\<rparr>"

definition catching :: "nat \<Rightarrow> participant" where
  "catching i = \<lparr>pid = i, first_asend = Yield PNone, asend = Stop None, athrow = (\<lambda>e. Stop None)\<rparr>"

definition failing :: "nat \<Rightarrow> nat \<Rightarrow> participant" where
  "failing i n = \<lparr>pid = i, first_asend = Raise (Raised n), asend = Stop None, athrow = Raise\<rparr>"

definition replacing :: "nat \<Rightarrow> nat \<Rightarrow> participant" where
  "replacing i n =
     \<lparr>pid = i, first_asend = Yield PNone, asend = Raise (Raised n), athrow = (\<lambda>e. Raise (Raised n))\<rparr>"


definition returning_value :: "nat \<Rightarrow> pyval \<Rightarrow> participant" where
  "returning_value i v =
     \<lparr>pid = i, first_asend = Yield PNone, asend = Stop (Some v), athrow = (\<lambda>e. Stop (Some v))\<rparr>"

section \<open>Boot validation (app.py, \<open>App._active_plugins\<close>)\<close>

text \<open>
  A plugin as \<open>_active_plugins\<close> sees it: what its hook \<open>active(app)\<close> does (\<open>None\<close>: it
  returns; \<open>Some n\<close>: it raises the exception \<open>n\<close>), and the four attributes the method
  probes with \<open>hasattr\<close>, \<open>None\<close> where the attribute is absent.
\<close>

record plugin =
  plugin_name :: string
  active :: "nat option"
  context_factory :: "nat option"
  decorator :: "nat option"
  provides :: "string list option"
  requires :: "string list option"

record app =
  contexts :: "nat list"
  decorators :: "nat list"
  app_provides :: "string set"

text \<open>
  Boot fails with the exception of an activation hook, or with the \<open>DependencyError\<close> of
  line 131, which carries the plugin and the joined missing keys.
\<close>

datatype boot_error = ActivationError nat | MissingRequires string string

definition option_list :: "'a option \<Rightarrow> 'a list" where
  "option_list x = (case x of None \<Rightarrow> [] | Some v \<Rightarrow> [v])"

text \<open>Lines 116 to 123: the first loop.\<close>

fun activate :: "plugin list \<Rightarrow> app \<Rightarrow> boot_error + app" where
  "activate [] a = Inr a"
| "activate (p # ps) a =
     (case active p of
        Some n \<Rightarrow> Inl (ActivationError n)
      | None \<Rightarrow>
          activate ps
            \<lparr>contexts = contexts a @ option_list (context_factory p),
             decorators = decorators a @ option_list (decorator p),
             app_provides = app_provides a \<union> set (concat (option_list (provides p)))\<rparr>)"

text \<open>\<^verbatim>\<open>sep.join(xs)\<close>.\<close>

fun join :: "string \<Rightarrow> string list \<Rightarrow> string" where
  "join sep [] = []"
| "join sep [x] = x"
| "join sep (x # y # ys) = x @ sep @ join sep (y # ys)"

text \<open>
  Python iterates over a set in an order the language leaves open (it follows the hashes
  of the elements).  A \<open>set_order\<close> stands for it: handed the elements of a set, each
  once, it returns them in the order the iteration meets them.  It is a parameter of the
  model, which fixes no order of its own.
\<close>

type_synonym set_order = "string list \<Rightarrow> string list"

text \<open>\<^verbatim>\<open>requires - self.provides\<close>, as the sequence \<open>join\<close> iterates over.\<close>

definition missing_keys :: "set_order \<Rightarrow> string list \<Rightarrow> string set \<Rightarrow> string list" where
  "missing_keys order rs provided = order (remdups (filter (\<lambda>k. k \<notin> provided) rs))"

text \<open>Lines 124 to 131: the second loop.\<close>

fun check_requires :: "set_order \<Rightarrow> plugin list \<Rightarrow> string set \<Rightarrow> boot_error option" where
  "check_requires order [] provided = None"
| "check_requires order (p # ps) provided =
     (case requires p of
        None \<Rightarrow> check_requires order ps provided
      | Some rs \<Rightarrow>
          if join '', '' (missing_keys order rs provided) \<noteq> [] then
            Some (MissingRequires (plugin_name p) (join '', '' (missing_keys order rs provided)))
          else check_requires order ps provided)"

text \<open>
  \<open>_active_plugins\<close>, for the plugins, the field names of the configuration and the order
  in which sets are iterated.
\<close>

definition config_keys :: "string list \<Rightarrow> string set" where
  "config_keys field_names = set (map (\<lambda>key. ''config.'' @ key) field_names)"

definition active_plugins :: "set_order \<Rightarrow> plugin list \<Rightarrow> string list \<Rightarrow> boot_error + app" where
  "active_plugins order plugins field_names =
     (case activate plugins \<lparr>contexts = [], decorators = [], app_provides = config_keys field_names\<rparr> of
        Inl e \<Rightarrow> Inl e
      | Inr a \<Rightarrow>
          (case check_requires order plugins (app_provides a) of
             Some e \<Rightarrow> Inl e
           | None \<Rightarrow> Inr a))"

text \<open>The provided-set the specification describes.\<close>

definition provided_set :: "plugin list \<Rightarrow> string list \<Rightarrow> string set" where
  "provided_set plugins field_names =
     config_keys field_names \<union> set (concat (concat (map (\<lambda>p. option_list (provides p)) plugins)))"

definition plain_plugin :: "string \<Rightarrow> string list option \<Rightarrow> string list option \<Rightarrow> plugin" where
  "plain_plugin name prov req =
     \<lparr>plugin_name = name, active = None, context_factory = None, decorator = None,
      provides = prov, requires = req\<rparr>"

section \<open>The handler adapter (app.py, \<open>App._handler\<close>)\<close>

text \<open>
  An exception raised while a request is handled, with the answers of the three
  \<open>isinstance\<close> tests the \<open>except\<close> clauses make.  \<open>HrpcError\<close> and \<open>HttpError\<close> are
  declared outside the source files at hand, so nothing is assumed about how the three
  classes are related.
\<close>

record handling_error =
  error_id :: nat
  is_HrpcError :: bool
  is_HttpError :: bool
  is_Exception :: bool

datatype http_response = MethodResponse nat | ErrorResponse nat | InternalErrorResponse

text \<open>
  \<open>_handler\<close>.  \<open>wrapped\<close> is what \<^verbatim>\<open>HttpRequest(raw_request)\<close> does, outside the
  \<open>try\<close>; \<open>handling\<close> is what the lookup and the call of the routed method do, inside
  it.  Building the error responses and logging are taken not to raise.
\<close>

definition handler :: "handling_error + nat \<Rightarrow> (nat \<Rightarrow> handling_error + nat) \<Rightarrow> handling_error + http_response" where
  "handler wrapped handling =
     (case wrapped of
        Inl ex \<Rightarrow> Inl ex
      | Inr http_request \<Rightarrow>
          (case handling http_request of
             Inr r \<Rightarrow> Inr (MethodResponse r)
           | Inl ex \<Rightarrow>
               if is_HrpcError ex then Inr (ErrorResponse (error_id ex))
               else if is_HttpError ex then Inl ex
               else if is_Exception ex then Inr InternalErrorResponse
               else Inl ex))"

definition keyboard_interrupt :: handling_error where
  "keyboard_interrupt = \<lparr>error_id = 0, is_HrpcError = False, is_HttpError = False, is_Exception = False\<rparr>"

definition raises_always :: "handling_error \<Rightarrow> nat \<Rightarrow> handling_error + nat" where
  "raises_always ex http_request = Inl ex"


definition domain_error :: handling_error where
  "domain_error = \<lparr>error_id = 1, is_HrpcError = True, is_HttpError = False, is_Exception = True\<rparr>"

definition transport_error :: handling_error where
  "transport_error = \<lparr>error_id = 2, is_HrpcError = False, is_HttpError = True, is_Exception = True\<rparr>"

definition value_error :: handling_error where
  "value_error = \<lparr>error_id = 3, is_HrpcError = False, is_HttpError = False, is_Exception = True\<rparr>"

section \<open>Vocabulary of the statements\<close>

text \<open>
  A participant finishes quietly: it ends with an exception that carries a false \<open>value\<close>,
  the one case in which lines 77 to 81 set \<open>error\<close> to \<open>None\<close>.
\<close>

fun quiet :: "outcome \<Rightarrow> bool" where
  "quiet (Stop (Some v)) = (\<not> truthy v)"
| "quiet r = False"



section \<open>Properties of the dependency container\<close>

lemma require_n_memo:
  "\<not> is_config_key key \<Longrightarrow> container c key = Some v \<Longrightarrow>
     require_n env c key n = (replicate n (Inr v), c)"
  by (induction n) (simp_all add: require_def)

lemma require_lazy:
  "\<not> is_config_key key \<Longrightarrow> container c key = None \<Longrightarrow> providers c key = Some p \<Longrightarrow>
     fst (require env c key) = fst (call_provider env c p)"
  by (cases "call_provider env c p"; cases "fst (call_provider env c p)") (simp_all add: require_def)

lemma provide_all_container:
  "container (provide_all c key ops) key =
     (case last_eager ops of None \<Rightarrow> container c key | Some v \<Rightarrow> Some v)"
  by (induction c key ops rule: provide_all.induct) (auto simp: provide_def split: option.splits)

lemma provide_all_providers:
  "last_eager ops = None \<Longrightarrow> ops \<noteq> [] \<Longrightarrow>
     providers (provide_all c key ops) key = Some (fst (last ops))"
proof (induction c key ops rule: provide_all.induct)
  case (1 c key)
  then show ?case by simp
next
  case (2 c key v lazy ops)
  show ?case
  proof (cases "ops = []")
    case True
    with 2 show ?thesis by (simp add: provide_def split: if_splits)
  next
    case False
    with 2 show ?thesis by (simp split: option.splits if_splits)
  qed
qed

lemma provide_all_other:
  "invoked (provide_all c key ops) = invoked c \<and> config (provide_all c key ops) = config c"
  by (induction c key ops rule: provide_all.induct) (auto simp: provide_def)

lemma call_provider_result:
  "invoked c' = invoked c \<Longrightarrow> fst (call_provider env c' p) = fst (call_provider env c p)"
  by (cases p) (simp_all add: invocations_def)

text \<open>
  C2, as the code has it: for every key outside the \<open>config.\<close> namespace and every value,
  an eager \<open>provide(key, value)\<close> followed by \<open>require(key)\<close> returns that value.
\<close>

theorem provide_then_require:
  "\<not> is_config_key key \<Longrightarrow> fst (require env (provide c key v False) key) = Inr v"
  by (simp add: require_def provide_def)

theorem provide_then_require_witness:
  "\<not> is_config_key ''cache'' \<and>
   fst (require raising (provide (new_context Map.empty) ''cache'' (PInt 1) False) ''cache'')
     = Inr (PInt 1)"
  using provide_then_require [of "''cache''" raising "new_context Map.empty" "PInt 1"]
  by (simp add: is_config_key_def)

text \<open>
  C2 as stated fails for a key of the \<open>config.\<close> namespace: \<open>require\<close> reads the
  configuration snapshot and never the container, so after \<open>provide('config.x', 1)\<close> on a
  Context whose configuration has no field \<open>x\<close>, \<open>require('config.x')\<close> raises
  \<open>DependencyError\<close>.
\<close>

theorem provide_config_key_counterexample:
  "fst (require raising (provide (new_context Map.empty) ''config.x'' (PInt 1) False) ''config.x'')
     = Inl (DependencyError ''config.x'')"
  by (simp add: require_def provide_def new_context_def is_config_key_def)

text \<open>
  C3, as the code has it: for a key outside the \<open>config.\<close> namespace that holds no value
  yet, after any non-empty sequence of \<open>provide\<close> calls for it \<open>require\<close> returns the value
  of the most recent eager \<open>provide\<close> if the sequence has one, whatever lazy registrations
  came after it; with lazy registrations only, it calls the most recent one.
\<close>

theorem provide_last_write_wins:
  assumes "\<not> is_config_key key" and "ops \<noteq> []" and "container c key = None"
  shows "fst (require env (provide_all c key ops) key) =
           (case last_eager ops of
              Some v \<Rightarrow> Inr v
            | None \<Rightarrow> fst (call_provider env c (fst (last ops))))"
proof (cases "last_eager ops")
  case None
  have "container (provide_all c key ops) key = None"
    using None assms(3) by (simp add: provide_all_container)
  moreover have "providers (provide_all c key ops) key = Some (fst (last ops))"
    using None assms(2) by (rule provide_all_providers)
  moreover have "fst (call_provider env (provide_all c key ops) (fst (last ops)))
                   = fst (call_provider env c (fst (last ops)))"
    by (rule call_provider_result) (simp add: provide_all_other)
  ultimately show ?thesis
    using None assms(1) by (simp add: require_lazy)
next
  case (Some v)
  then have "container (provide_all c key ops) key = Some v"
    by (simp add: provide_all_container)
  then show ?thesis
    using Some assms(1) by (simp add: require_def)
qed

theorem provide_last_write_wins_witness:
  "\<not> is_config_key ''k'' \<and>
   fst (require (returning (PInt 2))
          (provide_all (new_context Map.empty) ''k''
             [(PInt 1, False), (PInt 3, False), (PFun 0, True)]) ''k'')
     = Inr (PInt 3) \<and>
   fst (require (returning (PInt 2))
          (provide_all (new_context Map.empty) ''k'' [(PFun 1, True), (PFun 0, True)]) ''k'')
     = Inr (PInt 2)"
  using provide_last_write_wins [of "''k''" "[(PInt 1, False), (PInt 3, False), (PFun 0, True)]"
          "new_context Map.empty" "returning (PInt 2)"]
        provide_last_write_wins [of "''k''" "[(PFun 1, True), (PFun 0, True)]"
          "new_context Map.empty" "returning (PInt 2)"]
  by (simp add: is_config_key_def new_context_def returning_def)

text \<open>
  C3 as stated fails when a lazy registration follows an eager one: \<open>provide(k, 1)\<close> and
  then \<open>provide(k, f, lazy=True)\<close>, with \<open>f\<close> returning 2, leave \<open>require(k)\<close> returning 1,
  since \<open>require\<close> looks into the container first.
\<close>

theorem lazy_after_eager_counterexample:
  "fst (require (returning (PInt 2))
          (provide_all (new_context Map.empty) ''k'' [(PInt 1, False), (PFun 0, True)]) ''k'')
     = Inr (PInt 1)
   \<and> fst (call_provider (returning (PInt 2)) (new_context Map.empty) (PFun 0)) = Inr (PInt 2)"
  by (simp add: require_def provide_def new_context_def is_config_key_def returning_def)

text \<open>
  C4, as the code has it: for a key outside the \<open>config.\<close> namespace that is registered
  lazily and holds no value yet, a constructor that returns at its first call is called
  exactly once across any number of \<open>require\<close> calls, and every one of them returns the
  value it returned.
\<close>

theorem lazy_constructor_once:
  assumes "\<not> is_config_key key" and "providers c key = Some (PFun f)"
    and "container c key = None" and "env f (invocations f c) = Inr v"
  shows "fst (require_n env c key (Suc n)) = replicate (Suc n) (Inr v) \<and>
         invocations f (snd (require_n env c key (Suc n))) = Suc (invocations f c)"
proof -
  let ?c' = "c\<lparr>invoked := f # invoked c, container := (container c)(key \<mapsto> v)\<rparr>"
  have first: "require env c key = (Inr v, ?c')"
    using assms by (simp add: require_def)
  have rest: "require_n env ?c' key n = (replicate n (Inr v), ?c')"
    using assms(1) by (intro require_n_memo) simp_all
  show ?thesis
    by (simp add: first rest invocations_def)
qed

theorem lazy_constructor_once_witness:
  "\<not> is_config_key ''db'' \<and>
   fst (require_n (returning (PInt 5))
          (provide (new_context Map.empty) ''db'' (PFun 0) True) ''db'' 3)
     = [Inr (PInt 5), Inr (PInt 5), Inr (PInt 5)] \<and>
   invocations 0 (snd (require_n (returning (PInt 5))
          (provide (new_context Map.empty) ''db'' (PFun 0) True) ''db'' 3)) = 1"
  using lazy_constructor_once [of "''db''" "provide (new_context Map.empty) ''db'' (PFun 0) True"
          0 "returning (PInt 5)" "PInt 5" 2]
  by (simp add: is_config_key_def provide_def new_context_def returning_def invocations_def
        numeral_3_eq_3)

text \<open>
  C4 as stated fails twice.  A constructor that raises leaves nothing memoized, so two
  \<open>require\<close> calls call it twice.  And for a key of the \<open>config.\<close> namespace the lazy
  registration is never consulted: \<open>require\<close> answers from the configuration snapshot,
  here with \<open>DependencyError\<close>.
\<close>

theorem lazy_constructor_counterexample:
  "invocations 0 (snd (require_n raising
          (provide (new_context Map.empty) ''db'' (PFun 0) True) ''db'' 2)) = 2
   \<and> fst (require_n (returning (PInt 5))
          (provide (new_context Map.empty) ''config.x'' (PFun 0) True) ''config.x'' 1)
       = [Inl (DependencyError ''config.x'')]"
  by (simp add: numeral_2_eq_2 require_def provide_def new_context_def is_config_key_def
        raising_def invocations_def)

section \<open>Properties of the scope composer\<close>

subsection \<open>The passes, piece by piece\<close>

lemma exit_loop_append:
  "exit_loop (xs @ ys) cur h =
     (case exit_loop xs cur h of
        (Inl a, h') \<Rightarrow> (Inl a, h')
      | (Inr c, h') \<Rightarrow> exit_loop ys c h')"
  by (induction xs arbitrary: cur h)
     (auto split: outcome.splits option.splits prod.splits sum.splits)

lemma unwind_loop_append:
  "unwind_loop (xs @ ys) cur h =
     (case unwind_loop xs cur h of
        (Inl a, h') \<Rightarrow> (Inl a, h')
      | (Inr c, h') \<Rightarrow> unwind_loop ys c h')"
  by (induction xs arbitrary: cur h)
     (auto split: outcome.splits option.splits prod.splits sum.splits)

text \<open>Participants that let the injected error through leave it current and unlinked.\<close>

lemma exit_loop_propagate:
  "list_all (\<lambda>q. athrow q x = Raise x) qs \<Longrightarrow>
     exit_loop qs (Some x) h =
       (Inr (Some x), h\<lparr>calls := calls h @ map (\<lambda>q. Athrow (pid q) x) qs\<rparr>)"
  by (induction qs arbitrary: h)
     (simp_all add: exit_call_def exit_event_def supersede_def record_call_def)

lemma unwind_loop_propagate:
  "list_all (\<lambda>q. athrow q x = Raise x) qs \<Longrightarrow>
     unwind_loop qs x h = (Inr x, h\<lparr>calls := calls h @ map (\<lambda>q. Athrow (pid q) x) qs\<rparr>)"
  by (induction qs arbitrary: h)
     (simp_all add: relink_def record_call_def)

lemma exit_loop_quiet:
  "list_all (\<lambda>q. quiet (asend q)) qs \<Longrightarrow>
     exit_loop qs None h = (Inr None, h\<lparr>calls := calls h @ map (\<lambda>q. Asend (pid q)) qs\<rparr>)"
proof (induction qs arbitrary: h)
  case Nil
  then show ?case by simp
next
  case (Cons q qs)
  then obtain v where "asend q = Stop (Some v)" "\<not> truthy v"
    by (cases "asend q" rule: quiet.cases) auto
  with Cons show ?case
    by (simp add: exit_call_def exit_event_def supersede_def record_call_def)
qed




subsection \<open>Who is called, and in which order\<close>

text \<open>
  The first loop of \<open>__aenter__\<close> calls the participants in list order, up to and
  including the first one that fails.
\<close>

lemma enter_loop_calls:
  "enter_loop ps i h = (r, h') \<Longrightarrow>
     (case r of
        None \<Rightarrow> map event_pid (calls h') = map event_pid (calls h) @ map pid ps
      | Some (j, e) \<Rightarrow> i \<le> j \<and> j < i + length ps \<and>
          map event_pid (calls h') = map event_pid (calls h) @ map pid (take (Suc (j - i)) ps))"
proof (induction ps arbitrary: i h)
  case Nil
  then show ?case by simp
next
  case (Cons p ps)
  show ?case
  proof (cases "first_asend p = Yield PNone")
    case True
    with Cons.prems have "enter_loop ps (Suc i) (record_call (Asend (pid p)) h) = (r, h')"
      by simp
    from Cons.IH [OF this] show ?thesis
      by (auto simp: record_call_def Suc_diff_le Suc_diff_Suc Suc_le_eq split: option.splits)
  next
    case False
    with Cons.prems show ?thesis
      by (auto simp: record_call_def create_def split: outcome.splits if_splits)
  qed
qed

text \<open>A loop that runs to its end has called every participant once, in the order given.\<close>

lemma exit_loop_calls:
  "exit_loop ps cur h = (Inr c, h') \<Longrightarrow>
     map event_pid (calls h') = map event_pid (calls h) @ map pid ps"
proof (induction ps arbitrary: cur h)
  case Nil
  then show ?case by simp
next
  case (Cons p ps)
  show ?case
    using Cons.prems
    by (auto split: outcome.splits option.splits prod.splits sum.splits if_splits
        simp: create_def supersede_def record_call_def exit_event_def
        dest!: Cons.IH)
qed

lemma unwind_loop_calls:
  "unwind_loop ps cur h = (Inr c, h') \<Longrightarrow>
     map event_pid (calls h') = map event_pid (calls h) @ map pid ps"
proof (induction ps arbitrary: cur h)
  case Nil
  then show ?case by simp
next
  case (Cons p ps)
  show ?case
    using Cons.prems
    by (auto split: outcome.splits option.splits prod.splits sum.splits if_splits
        simp: create_def relink_def record_call_def
        dest!: Cons.IH)
qed

text \<open>
  Each pass runs to its end when no participant ends with a \<open>StopAsyncIteration\<close> that
  lacks the attribute \<open>value\<close>.
\<close>

lemma exit_loop_completes:
  "list_all (\<lambda>p. asend p \<noteq> Stop None \<and> (\<forall>e. athrow p e \<noteq> Stop None)) ps \<Longrightarrow>
     \<exists>c h'. exit_loop ps cur h = (Inr c, h')"
proof (induction ps arbitrary: cur h)
  case Nil
  then show ?case by simp
next
  case (Cons p ps)
  then have "exit_call p cur \<noteq> Stop None"
    and rest: "list_all (\<lambda>p. asend p \<noteq> Stop None \<and> (\<forall>e. athrow p e \<noteq> Stop None)) ps"
    by (auto simp: exit_call_def split: option.splits)
  then show ?case
    using Cons.IH [OF rest]
    by (auto split: outcome.splits option.splits prod.splits)
qed

lemma unwind_loop_completes:
  "list_all (\<lambda>p. \<forall>e. athrow p e \<noteq> Stop None) ps \<Longrightarrow>
     \<exists>c h'. unwind_loop ps cur h = (Inr c, h')"
proof (induction ps arbitrary: cur h)
  case Nil
  then show ?case by simp
next
  case (Cons p ps)
  then have "athrow p cur \<noteq> Stop None"
    and rest: "list_all (\<lambda>p. \<forall>e. athrow p e \<noteq> Stop None) ps"
    by auto
  then show ?case
    using Cons.IH [OF rest]
    by (auto split: outcome.splits option.splits prod.splits)
qed

text \<open>
  So, with participants whose \<open>StopAsyncIteration\<close> always carries \<open>value\<close>, the exit pass
  calls every participant exactly once in reverse order, whatever error it starts with,
  and a failed enter unwinds exactly the participants before the failing one, in reverse.
\<close>

lemma aexit_calls:
  assumes "list_all (\<lambda>p. asend p \<noteq> Stop None \<and> (\<forall>e. athrow p e \<noteq> Stop None)) ps"
  shows "map event_pid (calls (snd (aexit ps exc h))) = map event_pid (calls h) @ rev (map pid ps)"
proof -
  have "list_all (\<lambda>p. asend p \<noteq> Stop None \<and> (\<forall>e. athrow p e \<noteq> Stop None)) (rev ps)"
    using assms by (simp add: list_all_iff)
  from exit_loop_completes [OF this] obtain c h'
    where run: "exit_loop (rev ps) exc h = (Inr c, h')"
    by blast
  from exit_loop_calls [OF run] show ?thesis
    by (simp add: aexit_def run create_def rev_map split: option.splits)
qed

lemma aenter_calls:
  assumes "enter_loop ps 0 h = (Some (i, e), h0)"
    and "list_all (\<lambda>p. \<forall>e. athrow p e \<noteq> Stop None) ps"
  shows "map event_pid (calls (snd (aenter ps h))) =
           map event_pid (calls h) @ map pid (take (Suc i) ps) @ rev (map pid (take i ps))"
proof -
  have "list_all (\<lambda>p. \<forall>e. athrow p e \<noteq> Stop None) (rev (take i ps))"
    using assms(2) by (auto simp: list_all_iff dest: in_set_takeD)
  from unwind_loop_completes [OF this] obtain c h1
    where run: "unwind_loop (rev (take i ps)) e h0 = (Inr c, h1)"
    by blast
  from enter_loop_calls [OF assms(1)] unwind_loop_calls [OF run] show ?thesis
    by (simp add: aenter_def assms(1) run rev_map)
qed

subsection \<open>Errors raised while tearing down\<close>

text \<open>
  One step of either pass at which the participant answers the injected error \<open>e\<close> with a
  different error object \<open>e'\<close>: whatever participants \<open>qs\<close> are still to be resumed, the
  pass goes on with \<open>e'\<close> as the current error, in a state where \<open>e'.__cause__\<close> is \<open>e\<close>.
\<close>

lemma exit_step_supersede:
  assumes "exit_loop (rev rs) exc h = (Inr (Some e), h1)"
    and "athrow p e = Raise e'" and "e' \<noteq> e"
  shows "exit_loop (rev (qs @ p # rs)) exc h =
           exit_loop (rev qs) (Some e')
             (h1\<lparr>calls := calls h1 @ [Athrow (pid p) e], cause := (cause h1)(e' \<mapsto> e)\<rparr>)"
proof -
  have "exit_loop (rev (qs @ p # rs)) exc h = exit_loop (p # rev qs) (Some e) h1"
    using assms(1) by (simp add: exit_loop_append del: exit_loop.simps)
  also have "\<dots> = exit_loop (rev qs) (Some e')
               (h1\<lparr>calls := calls h1 @ [Athrow (pid p) e], cause := (cause h1)(e' \<mapsto> e)\<rparr>)"
    using assms(2,3) by (simp add: exit_call_def exit_event_def supersede_def record_call_def)
  finally show ?thesis .
qed

lemma unwind_step_supersede:
  assumes "unwind_loop (rev rs) err h0 = (Inr e, h1)"
    and "athrow p e = Raise e'" and "e' \<noteq> e"
  shows "unwind_loop (rev (qs @ p # rs)) err h0 =
           unwind_loop (rev qs) e'
             (h1\<lparr>calls := calls h1 @ [Athrow (pid p) e], cause := (cause h1)(e' \<mapsto> e)\<rparr>)"
proof -
  have "unwind_loop (rev (qs @ p # rs)) err h0 = unwind_loop (p # rev qs) e h1"
    using assms(1) by (simp add: unwind_loop_append del: unwind_loop.simps)
  also have "\<dots> = unwind_loop (rev qs) e'
               (h1\<lparr>calls := calls h1 @ [Athrow (pid p) e], cause := (cause h1)(e' \<mapsto> e)\<rparr>)"
    using assms(2,3) by (simp add: relink_def record_call_def)
  finally show ?thesis .
qed

text \<open>When the participants still to be resumed let \<open>e'\<close> through, it is what is raised.\<close>

lemma aexit_supersede:
  assumes "exit_loop (rev rs) exc h = (Inr (Some e), h1)"
    and "athrow p e = Raise e'" and "e' \<noteq> e"
    and "list_all (\<lambda>q. athrow q e' = Raise e') qs"
  shows "fst (aexit (qs @ p # rs) exc h) = (if exc = Some e' then Inr () else Inl e') \<and>
         cause (snd (aexit (qs @ p # rs) exc h)) e' = Some e"
proof -
  have rq: "list_all (\<lambda>q. athrow q e' = Raise e') (rev qs)"
    using assms(4) by (simp add: list_all_iff)
  show ?thesis
    unfolding aexit_def exit_step_supersede [OF assms(1,2,3)] exit_loop_propagate [OF rq]
    by auto
qed

lemma aenter_supersede:
  assumes "enter_loop ps 0 h = (Some (i, err), h0)" and "take i ps = qs @ p # rs"
    and "unwind_loop (rev rs) err h0 = (Inr e, h1)"
    and "athrow p e = Raise e'" and "e' \<noteq> e"
    and "list_all (\<lambda>q. athrow q e' = Raise e') qs"
  shows "fst (aenter ps h) = Inl e' \<and> cause (snd (aenter ps h)) e' = Some e"
proof -
  have rq: "list_all (\<lambda>q. athrow q e' = Raise e') (rev qs)"
    using assms(6) by (simp add: list_all_iff)
  have a: "unwind_loop (rev (take i ps)) err h0 =
             unwind_loop (rev qs) e'
               (h1\<lparr>calls := calls h1 @ [Athrow (pid p) e], cause := (cause h1)(e' \<mapsto> e)\<rparr>)"
    unfolding assms(2) by (rule unwind_step_supersede [OF assms(3,4,5)])
  show ?thesis
    by (simp add: aenter_def assms(1) a unwind_loop_propagate [OF rq] del: unwind_loop.simps)
qed

text \<open>
  C6, as the code has it.  Each pass holds one current error at a time (a single variable,
  \<open>current_error\<close>).  Whenever a participant answers the injected current error \<open>e\<close> with a
  different error object \<open>e'\<close>, the pass goes on with \<open>e'\<close> as the current error and with
  \<open>e'.__cause__\<close> set to \<open>e\<close>, the very object, whatever the participants resumed after it
  do (they may supersede \<open>e'\<close> in turn).  And \<open>e'\<close> is the error the lifecycle reports when
  every participant resumed after that one re-raises the error it is given.  This holds in
  \<open>__aexit__\<close> (which returns instead of raising when \<open>e'\<close> is the error it was called
  with: that error then goes on propagating) and in the unwind of \<open>__aenter__\<close>.
\<close>

theorem superseding_error_is_current:
  "(exit_loop (rev rs) exc h = (Inr (Some e), h1) \<and> athrow p e = Raise e' \<and> e' \<noteq> e
    \<longrightarrow> exit_loop (rev (qs @ p # rs)) exc h =
          exit_loop (rev qs) (Some e')
            (h1\<lparr>calls := calls h1 @ [Athrow (pid p) e], cause := (cause h1)(e' \<mapsto> e)\<rparr>) \<and>
        (list_all (\<lambda>q. athrow q e' = Raise e') qs
         \<longrightarrow> fst (aexit (qs @ p # rs) exc h) = (if exc = Some e' then Inr () else Inl e') \<and>
             cause (snd (aexit (qs @ p # rs) exc h)) e' = Some e))
   \<and>
   (enter_loop ps 0 g = (Some (i, err), g0) \<and> take i ps = us @ u # vs \<and>
      unwind_loop (rev vs) err g0 = (Inr d, g1) \<and> athrow u d = Raise d' \<and> d' \<noteq> d
    \<longrightarrow> unwind_loop (rev (take i ps)) err g0 =
          unwind_loop (rev us) d'
            (g1\<lparr>calls := calls g1 @ [Athrow (pid u) d], cause := (cause g1)(d' \<mapsto> d)\<rparr>) \<and>
        (list_all (\<lambda>q. athrow q d' = Raise d') us
         \<longrightarrow> fst (aenter ps g) = Inl d' \<and> cause (snd (aenter ps g)) d' = Some d))"
proof (intro conjI impI)
  assume a: "exit_loop (rev rs) exc h = (Inr (Some e), h1) \<and> athrow p e = Raise e' \<and> e' \<noteq> e"
  then show "exit_loop (rev (qs @ p # rs)) exc h =
          exit_loop (rev qs) (Some e')
            (h1\<lparr>calls := calls h1 @ [Athrow (pid p) e], cause := (cause h1)(e' \<mapsto> e)\<rparr>)"
    by (intro exit_step_supersede) simp_all
  assume "list_all (\<lambda>q. athrow q e' = Raise e') qs"
  with a aexit_supersede [of rs exc h e h1 p e' qs]
  show "fst (aexit (qs @ p # rs) exc h) = (if exc = Some e' then Inr () else Inl e')"
    and "cause (snd (aexit (qs @ p # rs) exc h)) e' = Some e"
    by simp_all
next
  assume b: "enter_loop ps 0 g = (Some (i, err), g0) \<and> take i ps = us @ u # vs \<and>
      unwind_loop (rev vs) err g0 = (Inr d, g1) \<and> athrow u d = Raise d' \<and> d' \<noteq> d"
  then show "unwind_loop (rev (take i ps)) err g0 =
          unwind_loop (rev us) d'
            (g1\<lparr>calls := calls g1 @ [Athrow (pid u) d], cause := (cause g1)(d' \<mapsto> d)\<rparr>)"
    using unwind_step_supersede [of vs err g0 d g1 u d' us] by simp
  assume "list_all (\<lambda>q. athrow q d' = Raise d') us"
  with b aenter_supersede [of ps g i err g0 us u vs d g1 d']
  show "fst (aenter ps g) = Inl d'" and "cause (snd (aenter ps g)) d' = Some d"
    by simp_all
qed

text \<open>
  The theorem at three runs: the first of two supersessions in a row (the link from
  \<open>Raised 8\<close> to \<open>Raised 1\<close> is made and is still there when \<open>__aexit__\<close> raises
  \<open>Raised 9\<close>), a supersession followed by a participant that lets the error through, and
  the same in the unwind of \<open>__aenter__\<close>.
\<close>

theorem superseding_error_is_current_witness:
  "exit_loop (rev [replacing 0 9, replacing 1 8]) (Some (Raised 1)) start_state
     = exit_loop [replacing 0 9] (Some (Raised 8))
         \<lparr>cause = [Raised 8 \<mapsto> Raised 1], created = 0, calls = [Athrow 1 (Raised 1)]\<rparr>
   \<and> cause (snd (aexit [replacing 0 9, replacing 1 8] (Some (Raised 1)) start_state)) (Raised 8)
       = Some (Raised 1)
   \<and> fst (aexit [scope 0, replacing 1 8] (Some (Raised 1)) start_state) = Inl (Raised 8)
   \<and> cause (snd (aexit [scope 0, replacing 1 8] (Some (Raised 1)) start_state)) (Raised 8)
       = Some (Raised 1)
   \<and> fst (aenter [scope 0, replacing 1 8, failing 2 7] start_state) = Inl (Raised 8)
   \<and> cause (snd (aenter [scope 0, replacing 1 8, failing 2 7] start_state)) (Raised 8)
       = Some (Raised 7)"
  using superseding_error_is_current
    [where rs = "[]" and exc = "Some (Raised 1)" and h = start_state and e = "Raised 1"
       and ?h1.0 = start_state and p = "replacing 1 8" and e' = "Raised 8"
       and qs = "[replacing 0 9]"
       and ps = "[scope 0, replacing 1 8, failing 2 7]" and g = start_state and i = 2
       and err = "Raised 7"
       and ?g0.0 = "\<lparr>cause = Map.empty, created = 0, calls = [Asend 0, Asend 1, Asend 2]\<rparr>"
       and us = "[scope 0]" and u = "replacing 1 8" and vs = "[]" and d = "Raised 7"
       and ?g1.0 = "\<lparr>cause = Map.empty, created = 0, calls = [Asend 0, Asend 1, Asend 2]\<rparr>"
       and d' = "Raised 8"]
    superseding_error_is_current
    [where rs = "[]" and exc = "Some (Raised 1)" and h = start_state and e = "Raised 1"
       and ?h1.0 = start_state and p = "replacing 1 8" and e' = "Raised 8" and qs = "[scope 0]"
       and ps = "[scope 0, replacing 1 8, failing 2 7]" and g = start_state and i = 2
       and err = "Raised 7"
       and ?g0.0 = "\<lparr>cause = Map.empty, created = 0, calls = [Asend 0, Asend 1, Asend 2]\<rparr>"
       and us = "[scope 0]" and u = "replacing 1 8" and vs = "[]" and d = "Raised 7"
       and ?g1.0 = "\<lparr>cause = Map.empty, created = 0, calls = [Asend 0, Asend 1, Asend 2]\<rparr>"
       and d' = "Raised 8"]
  by (simp add: aexit_def scope_def replacing_def failing_def start_state_def record_call_def
        exit_call_def exit_event_def supersede_def numeral_2_eq_2)

text \<open>
  C6 as stated fails when a participant resumed later answers with yet another error:
  participant 1 answers the injected \<open>Raised 1\<close> with \<open>Raised 8\<close>, participant 0 answers
  \<open>Raised 8\<close> with \<open>Raised 9\<close>, and \<open>__aexit__\<close> raises \<open>Raised 9\<close>, not \<open>Raised 8\<close>.
\<close>

theorem superseded_twice_counterexample:
  "athrow (replacing 1 8) (Raised 1) = Raise (Raised 8)
   \<and> fst (aexit [replacing 0 9, replacing 1 8] (Some (Raised 1)) start_state) = Inl (Raised 9)"
  by (simp add: aexit_def replacing_def start_state_def record_call_def
        exit_call_def exit_event_def supersede_def)






text \<open>
  A participant that is no async generator can end with an exception that carries a
  false \<open>value\<close>.  Lines 80, 81 and 87 then clear the current error, and the pass goes on
  with \<open>asend(None)\<close>, whatever the participants still to be resumed do.  When all of them
  end in the same way, \<open>__aexit__\<close> comes to line 95 with no current error and \<^verbatim>\<open>raise None\<close>
  is a \<open>TypeError\<close>; when one of them raises, that error is what \<open>__aexit__\<close> raises.
\<close>

lemma exit_step_cleared:
  assumes "exit_loop (rev rs) exc h = (Inr (Some e), h1)"
    and "athrow p e = Stop (Some v)" and "\<not> truthy v"
  shows "exit_loop (rev (qs @ p # rs)) exc h =
           exit_loop (rev qs) None (h1\<lparr>calls := calls h1 @ [Athrow (pid p) e]\<rparr>)"
proof -
  have "exit_loop (rev (qs @ p # rs)) exc h = exit_loop (p # rev qs) (Some e) h1"
    using assms(1) by (simp add: exit_loop_append del: exit_loop.simps)
  also have "\<dots> = exit_loop (rev qs) None (h1\<lparr>calls := calls h1 @ [Athrow (pid p) e]\<rparr>)"
    using assms(2,3) by (simp add: exit_call_def exit_event_def supersede_def record_call_def)
  finally show ?thesis .
qed

lemma aexit_cleared:
  assumes "exit_loop (rev rs) (Some x) h = (Inr (Some e), h1)"
    and "athrow p e = Stop (Some v)" and "\<not> truthy v"
    and "list_all (\<lambda>q. quiet (asend q)) qs"
  shows "aexit (qs @ p # rs) (Some x) h =
           (Inl (TypeError (created h1)),
            h1\<lparr>calls := calls h1 @ Athrow (pid p) e # map (\<lambda>q. Asend (pid q)) (rev qs),
               created := Suc (created h1)\<rparr>)"
proof -
  have rq: "list_all (\<lambda>q. quiet (asend q)) (rev qs)"
    using assms(4) by (simp add: list_all_iff)
  show ?thesis
    unfolding aexit_def exit_step_cleared [OF assms(1,2,3)] exit_loop_quiet [OF rq]
    by (simp add: create_def)
qed

lemma cleared_then_raised:
  "aexit [scope 0, replacing 1 9, returning_value 2 PNone] (Some (Raised 1)) start_state
     = (Inl (Raised 9),
        \<lparr>cause = Map.empty, created = 0,
         calls = [Athrow 2 (Raised 1), Asend 1, Athrow 0 (Raised 9)]\<rparr>)"
  by (simp add: aexit_def returning_value_def replacing_def scope_def start_state_def
        record_call_def exit_call_def exit_event_def supersede_def create_def)

subsection \<open>Async generators that finish\<close>

text \<open>
  C1 on the code: two async generators of the form \<^verbatim>\<open>try: yield  finally: pass\<close> are
  entered in order, and the handler succeeds.  The exit pass resumes participant 1, which
  finishes with a plain \<open>StopAsyncIteration\<close>; line 77 reads \<^verbatim>\<open>stop.value\<close>, which raises
  \<open>AttributeError\<close> inside the \<open>except\<close> clause and leaves \<open>__aexit__\<close>.  Participant 0 is
  never resumed.
\<close>

theorem exit_aborts_at_finished_scope:
  "aenter [scope 0, scope 1] start_state
     = (Inr (), \<lparr>cause = Map.empty, created = 0, calls = [Asend 0, Asend 1]\<rparr>)
   \<and> aexit [scope 0, scope 1] None
        \<lparr>cause = Map.empty, created = 0, calls = [Asend 0, Asend 1]\<rparr>
     = (Inl (AttributeError 0),
        \<lparr>cause = Map.empty, created = 1, calls = [Asend 0, Asend 1, Asend 1]\<rparr>)"
  by (simp add: aenter_def aexit_def scope_def start_state_def record_call_def create_def
        exit_call_def exit_event_def)

text \<open>
  C5 on the code: participant 2 raises at its first step, and participant 1 is an async
  generator that catches the injected error and finishes.  Line 55 reads
  \<^verbatim>\<open>stop.value\<close> of its plain \<open>StopAsyncIteration\<close>, the \<open>AttributeError\<close> leaves
  \<open>__aenter__\<close> with no \<open>__cause__\<close> set, and participant 0 receives no \<open>athrow\<close>.
\<close>

theorem unwind_aborts_at_catching_scope:
  "aenter [scope 0, catching 1, failing 2 7] start_state
     = (Inl (AttributeError 0),
        \<lparr>cause = Map.empty, created = 1,
         calls = [Asend 0, Asend 1, Asend 2, Athrow 1 (Raised 7)]\<rparr>)"
  by (simp add: aenter_def scope_def catching_def failing_def start_state_def record_call_def
        create_def numeral_2_eq_2)

text \<open>
  C10 on the code: the handler raised \<open>Raised 1\<close>, participant 1 is an async generator
  that catches the injected error and finishes (it returns \<open>None\<close>), participant 0 is an
  ordinary scope.  Participant 1 ends with a plain \<open>StopAsyncIteration\<close>, line 77 reads
  \<^verbatim>\<open>stop.value\<close>, and the \<open>AttributeError\<close> leaves \<open>__aexit__\<close>: the current error is not
  cleared, participant 0 is not resumed at all, and line 95 with its \<open>TypeError\<close> is never
  reached.
\<close>

theorem exit_aborts_at_catching_scope:
  "aexit [scope 0, catching 1] (Some (Raised 1)) start_state
     = (Inl (AttributeError 0),
        \<lparr>cause = Map.empty, created = 1, calls = [Athrow 1 (Raised 1)]\<rparr>)"
  by (simp add: aexit_def scope_def catching_def start_state_def record_call_def create_def
        exit_call_def exit_event_def)

section \<open>Properties of boot validation\<close>

subsection \<open>What makes the second loop fail\<close>

lemma join_empty: "sep \<noteq> [] \<Longrightarrow> join sep xs = [] \<longleftrightarrow> xs = [] \<or> xs = ['''']"
  by (induction sep xs rule: join.induct) auto

lemma distinct_subset_single:
  "distinct xs \<Longrightarrow> set xs \<subseteq> {a} \<longleftrightarrow> xs = [] \<or> xs = [a]"
  by (cases xs; cases "tl xs") auto

text \<open>
  The lemmas hold for every order of iteration: all they use is that the iteration meets
  every element of the set once.
\<close>

lemma missing_join_empty:
  assumes "\<And>xs. distinct xs \<Longrightarrow> set (order xs) = set xs \<and> distinct (order xs)"
  shows "join '', '' (missing_keys order rs provided) = [] \<longleftrightarrow> set rs - provided \<subseteq> {[]}"
proof -
  have "distinct (missing_keys order rs provided)"
    and "set (missing_keys order rs provided) = set rs - provided"
    using assms [of "remdups (filter (\<lambda>k. k \<notin> provided) rs)"]
    by (auto simp: missing_keys_def)
  then show ?thesis
    using distinct_subset_single [of "missing_keys order rs provided" "[]"]
    by (simp add: join_empty)
qed

lemma check_requires_None:
  assumes "\<And>xs. distinct xs \<Longrightarrow> set (order xs) = set xs \<and> distinct (order xs)"
  shows "check_requires order ps provided = None \<longleftrightarrow>
     (\<forall>p \<in> set ps. \<forall>rs. requires p = Some rs \<longrightarrow> set rs - provided \<subseteq> {[]})"
  by (induction ps) (auto simp: missing_join_empty [OF assms] split: option.splits)

lemma check_requires_Some:
  assumes "\<And>xs. distinct xs \<Longrightarrow> set (order xs) = set xs \<and> distinct (order xs)"
    and "check_requires order ps provided = Some e"
  shows "\<exists>p \<in> set ps. \<exists>rs. requires p = Some rs \<and> \<not> set rs - provided \<subseteq> {[]} \<and>
        set (missing_keys order rs provided) = set rs - provided \<and>
        e = MissingRequires (plugin_name p) (join '', '' (missing_keys order rs provided))"
  using assms(2)
proof (induction ps)
  case Nil
  then show ?case by simp
next
  case (Cons p ps)
  have keys: "set (missing_keys order rs provided) = set rs - provided" for rs
    using assms(1) [of "remdups (filter (\<lambda>k. k \<notin> provided) rs)"]
    by (auto simp: missing_keys_def)
  from Cons show ?case
    by (auto simp: missing_join_empty [OF assms(1)] keys split: option.splits if_splits)
qed

lemma activate_provides:
  "list_all (\<lambda>p. active p = None) ps \<Longrightarrow>
     \<exists>a'. activate ps a = Inr a' \<and>
       app_provides a' =
         app_provides a \<union> (\<Union>p \<in> set ps. set (concat (option_list (provides p))))"
proof (induction ps arbitrary: a)
  case Nil
  then show ?case by simp
next
  case (Cons p ps)
  let ?a = "\<lparr>contexts = contexts a @ option_list (context_factory p),
             decorators = decorators a @ option_list (decorator p),
             app_provides = app_provides a \<union> set (concat (option_list (provides p)))\<rparr>"
  from Cons.prems have "list_all (\<lambda>p. active p = None) ps" and "active p = None"
    by simp_all
  from Cons.IH [OF this(1), of ?a] this(2) show ?case
    by auto
qed

lemma provided_set_Union:
  "provided_set plugins field_names =
     config_keys field_names \<union> (\<Union>p \<in> set plugins. set (concat (option_list (provides p))))"
  by (simp add: provided_set_def)

text \<open>
  When every activation hook returns, the provided-set is the union the specification
  describes, and boot fails with the \<open>DependencyError\<close> exactly when some plugin requires
  a key that is not provided and is not the empty string, whatever the order of iteration.
\<close>

lemma boot_validation:
  assumes "list_all (\<lambda>p. active p = None) plugins"
    and "\<And>xs. distinct xs \<Longrightarrow> set (order xs) = set xs \<and> distinct (order xs)"
  shows "(\<exists>name missing.
            active_plugins order plugins field_names = Inl (MissingRequires name missing))
         \<longleftrightarrow> (\<exists>p \<in> set plugins. \<exists>rs. requires p = Some rs \<and>
                \<not> set rs - provided_set plugins field_names \<subseteq> {[]})"
proof -
  obtain a
    where a: "activate plugins
                \<lparr>contexts = [], decorators = [], app_provides = config_keys field_names\<rparr> = Inr a"
    and p: "app_provides a = provided_set plugins field_names"
    using activate_provides [OF assms(1),
        of "\<lparr>contexts = [], decorators = [], app_provides = config_keys field_names\<rparr>"]
    by (auto simp: provided_set_Union)
  show ?thesis
  proof (cases "check_requires order plugins (provided_set plugins field_names)")
    case None
    then have "active_plugins order plugins field_names = Inr a"
      using a p by (simp add: active_plugins_def)
    moreover have "\<forall>p \<in> set plugins. \<forall>rs. requires p = Some rs \<longrightarrow>
                     set rs - provided_set plugins field_names \<subseteq> {[]}"
      using None by (simp only: check_requires_None [OF assms(2)])
    ultimately show ?thesis by auto
  next
    case (Some e)
    then have "active_plugins order plugins field_names = Inl e"
      using a p by (simp add: active_plugins_def)
    then show ?thesis
      using check_requires_Some [OF assms(2) Some] by auto
  qed
qed

text \<open>
  The boot scenario of the specification: with P1 boot succeeds, without it boot fails
  and the message names \<open>cache\<close>.  One key is missing, so every order lists it alone.
\<close>

lemma boot_scenario:
  assumes "order [''cache''] = [''cache'']" and "order [] = []"
  shows "active_plugins order [plain_plugin ''P1'' (Some [''cache'']) None,
                   plain_plugin ''P2'' None (Some [''cache'', ''config.debug''])] [''debug'']
     = Inr \<lparr>contexts = [], decorators = [], app_provides = {''config.debug'', ''cache''}\<rparr>
   \<and> active_plugins order [plain_plugin ''P2'' None (Some [''cache'', ''config.debug''])]
         [''debug'']
     = Inl (MissingRequires ''P2'' ''cache'')"
  using assms
  by (auto simp add: active_plugins_def plain_plugin_def config_keys_def
        option_list_def missing_keys_def)

text \<open>
  C8 on the code: a plugin requires the key \<open>''\<close> (the empty string), which nothing
  provides.  The difference \<open>requires - provided\<close> is not empty, but its \<open>join\<close> is the
  empty string, the test \<^verbatim>\<open>if missing:\<close> of line 129 is false, and boot succeeds.  The
  set has one element, which every order of iteration returns alone.
\<close>

theorem empty_key_passes_validation:
  "order [''''] = [''''] \<Longrightarrow>
   set [''''] - provided_set [plain_plugin ''P'' None (Some [''''])] [''debug''] = {''''}
   \<and> active_plugins order [plain_plugin ''P'' None (Some [''''])] [''debug'']
       = Inr \<lparr>contexts = [], decorators = [], app_provides = {''config.debug''}\<rparr>"
  by (simp add: active_plugins_def plain_plugin_def provided_set_def config_keys_def
        option_list_def missing_keys_def)

theorem empty_key_passes_validation_witness:
  "rev [''''] = ['''']
   \<and> set [''''] - provided_set [plain_plugin ''P'' None (Some [''''])] [''debug''] = {''''}
   \<and> active_plugins rev [plain_plugin ''P'' None (Some [''''])] [''debug'']
       = Inr \<lparr>contexts = [], decorators = [], app_provides = {''config.debug''}\<rparr>"
  using empty_key_passes_validation [of rev]
  by simp

section \<open>Properties of the handler adapter\<close>

text \<open>
  C9, as the code has it.  When handling raises \<open>ex\<close>: an \<open>HrpcError\<close> is mapped to the
  structured error response; an \<open>HttpError\<close> that is no \<open>HrpcError\<close> passes through
  unmodified; any other error that is an \<open>Exception\<close> becomes the generic internal-failure
  response; an error that is no \<open>Exception\<close> (\<open>KeyboardInterrupt\<close>, \<open>SystemExit\<close>,
  \<open>GeneratorExit\<close>) passes through as well; and nothing else leaves the handler.
\<close>

theorem handler_errors:
  assumes "handling q = Inl ex"
  shows "(is_HrpcError ex \<longrightarrow> handler (Inr q) handling = Inr (ErrorResponse (error_id ex)))
       \<and> (\<not> is_HrpcError ex \<and> is_HttpError ex \<longrightarrow> handler (Inr q) handling = Inl ex)
       \<and> (\<not> is_HrpcError ex \<and> \<not> is_HttpError ex \<and> is_Exception ex \<longrightarrow>
            handler (Inr q) handling = Inr InternalErrorResponse)
       \<and> (\<not> is_HrpcError ex \<and> \<not> is_HttpError ex \<and> \<not> is_Exception ex \<longrightarrow>
            handler (Inr q) handling = Inl ex)
       \<and> (handler (Inr q) handling = Inl e \<longrightarrow>
            e = ex \<and> \<not> is_HrpcError ex \<and> (is_HttpError ex \<or> \<not> is_Exception ex))"
  using assms by (auto simp: handler_def)

theorem handler_errors_witness:
  "raises_always domain_error 0 = Inl domain_error
   \<and> handler (Inr 0) (raises_always domain_error) = Inr (ErrorResponse 1)
   \<and> handler (Inr 0) (raises_always transport_error) = Inl transport_error
   \<and> handler (Inr 0) (raises_always value_error) = Inr InternalErrorResponse
   \<and> handler (Inr 0) (raises_always keyboard_interrupt) = Inl keyboard_interrupt"
  using handler_errors [of "raises_always domain_error" 0 domain_error domain_error]
        handler_errors [of "raises_always transport_error" 0 transport_error transport_error]
        handler_errors [of "raises_always value_error" 0 value_error value_error]
        handler_errors [of "raises_always keyboard_interrupt" 0 keyboard_interrupt
          keyboard_interrupt]
  by (simp add: raises_always_def domain_error_def transport_error_def value_error_def
        keyboard_interrupt_def)

text \<open>
  C9 as stated fails for an error that is no \<open>Exception\<close>: \<^verbatim>\<open>except Exception\<close> does not
  catch it, so it reaches the transport layer although it is no \<open>HttpError\<close>.
\<close>

theorem base_exception_escapes_counterexample:
  "handler (Inr 0) (raises_always keyboard_interrupt) = Inl keyboard_interrupt
   \<and> \<not> is_HttpError keyboard_interrupt"
  by (simp add: handler_def raises_always_def keyboard_interrupt_def)

end
